theory Spec2Isabelle
  imports Main "HOL-Library.Sublist"
begin

section \<open>Values\<close>

text \<open>
  The cells of \<^verbatim>\<open>signal.ts\<close> are generic in the stored type. The values used here are
  the JavaScript primitives the tests store: \<^verbatim>\<open>undefined\<close>, numbers (integers only, with
  \<^verbatim>\<open>NaN\<close> kept apart because it is the one primitive that is not \<^verbatim>\<open>===\<close> to itself),
  strings and booleans.
\<close>

datatype val = VUndef | VNum int | VNaN | VStr string | VBool bool

text \<open>The comparison \<^verbatim>\<open>this._value === newValue\<close> of the setter.\<close>

fun strict_eq :: "val \<Rightarrow> val \<Rightarrow> bool" where
  "strict_eq VNaN _ = False"
| "strict_eq _ VNaN = False"
| "strict_eq a b = (a = b)"

fun string_of_nat :: "nat \<Rightarrow> string" where
  "string_of_nat n =
     (if n < 10 then [''0123456789'' ! n]
      else string_of_nat (n div 10) @ [''0123456789'' ! (n mod 10)])"

declare string_of_nat.simps [simp del]

definition string_of_int :: "int \<Rightarrow> string" where
  "string_of_int i = (if i < 0 then ''-'' @ string_of_nat (nat (- i)) else string_of_nat (nat i))"

text \<open>String conversion of a template literal \<^verbatim>\<open>`${v}`\<close>.\<close>

fun js_to_string :: "val \<Rightarrow> string" where
  "js_to_string VUndef = ''undefined''"
| "js_to_string (VNum i) = string_of_int i"
| "js_to_string VNaN = ''NaN''"
| "js_to_string (VStr s) = s"
| "js_to_string (VBool b) = (if b then ''true'' else ''false'')"

fun js_to_number :: "val \<Rightarrow> int option" where
  "js_to_number (VNum i) = Some i"
| "js_to_number (VBool b) = Some (if b then 1 else 0)"
| "js_to_number _ = None"

text \<open>The operator \<^verbatim>\<open>+\<close> on the values above (strings other than operands of a
  concatenation are never converted to numbers here).\<close>

fun js_add :: "val \<Rightarrow> val \<Rightarrow> val" where
  "js_add (VStr a) b = VStr (a @ js_to_string b)"
| "js_add a (VStr b) = VStr (js_to_string a @ b)"
| "js_add a b =
     (case (js_to_number a, js_to_number b) of
        (Some x, Some y) \<Rightarrow> VNum (x + y)
      | _ \<Rightarrow> VNaN)"

section \<open>Errors and completions\<close>

text \<open>
  Every \<^verbatim>\<open>throw\<close> of the source is one constructor: the constructor of \<^verbatim>\<open>Signal\<close>
  inside an effect, a nested \<^verbatim>\<open>effect\<close>, the circular-update guard of the setter (with
  the signal id and the number of snapshotted effects of its message), and the setter of
  \<^verbatim>\<open>DerivedSignal\<close>. \<open>UserError\<close> is a value thrown by user code. \<open>BadReference\<close> stands
  for the \<^verbatim>\<open>TypeError\<close> of using a reference that names no object; programs built from
  the references the factories return never meet it.
\<close>

datatype error =
    CreatingSignalInsideEffect
  | NestedEffectsNotSupported
  | CircularUpdate string nat
  | CannotMutateDerived
  | UserError val
  | BadReference

text \<open>The two error kinds of the specification.\<close>

fun is_structural_violation :: "error \<Rightarrow> bool" where
  "is_structural_violation CreatingSignalInsideEffect = True"
| "is_structural_violation NestedEffectsNotSupported = True"
| "is_structural_violation CannotMutateDerived = True"
| "is_structural_violation _ = False"

fun is_runaway_update :: "error \<Rightarrow> bool" where
  "is_runaway_update (CircularUpdate _ _) = True"
| "is_runaway_update _ = False"

text \<open>
  A call returns a value, throws, or does not return within the fuel it was given
  (the propagation of a write is a recursion that need not end).
\<close>

datatype completion = Normal val | Thrown error | OutOfFuel

section \<open>User code\<close>

text \<open>The object returned by the getter \<^verbatim>\<open>meta\<close>.\<close>

record meta_info =
  m_id :: string
  m_effects :: "string list"
  m_version :: nat
  m_value :: val

text \<open>
  The body of an effect, a compute function and a top-level script are JavaScript code
  that meets the engine only through its exported functions and the accessors of the
  cells. Such code is a tree of these calls; what it does with the results in between is
  an ordinary function. Cells and effect wrappers are objects, named by their position
  in the tables of the state.
\<close>

datatype prog =
    Ret val
  | Throw val
  | State val "nat \<Rightarrow> prog"
  | Derived string prog "nat \<Rightarrow> prog"
  | Effect string prog "val \<Rightarrow> prog"
  | Get nat "val \<Rightarrow> prog"
  | Set nat val prog
  | Meta nat "meta_info \<Rightarrow> prog"
  | CurrentEffect "nat option \<Rightarrow> prog"
  | DebugContext bool bool prog
  | Push val prog
  | Try prog "error \<Rightarrow> prog" "val \<Rightarrow> prog"

text \<open>
  The function a wrapper runs: the \<^verbatim>\<open>fn\<close> given to \<^verbatim>\<open>effect\<close>, or the closure of the
  constructor of \<^verbatim>\<open>DerivedSignal\<close>, which assigns the result of \<^verbatim>\<open>computeFn\<close> to the
  protected field of its own cell.
\<close>

datatype fn_body = Plain prog | Recompute nat prog

section \<open>State\<close>

record cell =
  c_id :: string
  c_value :: val
  c_effects :: "nat list"
  c_version :: nat
  c_updateCount :: nat
  c_derived :: bool

record effect_fn =
  e_name :: string
  e_id :: string
  e_fn :: fn_body

datatype dbg_msg =
    NewSignal val
  | GetValue val
  | Added string string nat
  | StartSet val
  | WillRun string nat nat
  | EndSet
  | SetDerived val
  | StartEffect
  | EndEffect

datatype dbg_line = SignalLine string nat dbg_msg | EffectLine string nat dbg_msg string

text \<open>
  The module's variables \<^verbatim>\<open>_id\<close>, \<^verbatim>\<open>_depth\<close>, \<^verbatim>\<open>_debugEnabled\<close> and
  \<^verbatim>\<open>__currentEffect\<close>, the objects created so far, the lines written by
  \<^verbatim>\<open>console.debug\<close>, and the array \<^verbatim>\<open>log\<close> that the effects of the tests push to.
  A \<^verbatim>\<open>Set\<close> iterates in insertion order, so \<^verbatim>\<open>_effects\<close> is a list.
\<close>

record state =
  g_id :: nat
  g_depth :: int
  g_debugEnabled :: bool
  currentEffect :: "nat option"
  cells :: "cell list"
  effs :: "effect_fn list"
  console :: "dbg_line list"
  log :: "val list"

definition init :: state where
  "init = \<lparr>g_id = 0, g_depth = 0, g_debugEnabled = False, currentEffect = None,
           cells = [], effs = [], console = [], log = []\<rparr>"

definition UPDATE_COUNT_LIMIT :: nat where
  "UPDATE_COUNT_LIMIT = 1000"

definition signalDebugContext :: "bool \<Rightarrow> bool \<Rightarrow> state \<Rightarrow> state" where
  "signalDebugContext enable reset s =
     (let s1 = s\<lparr>g_debugEnabled := enable\<rparr>
      in if reset then s1\<lparr>g_id := 0, g_depth := 0\<rparr> else s1)"

definition eid :: "effect_fn \<Rightarrow> string" where
  "eid e = e_id e @ ''['' @ e_name e @ '']''"

text \<open>\<^verbatim>\<open>depth()\<close> is the indentation, \<^verbatim>\<open>Math.max(0, Math.min(_depth, 6))\<close> times four
  blanks; the line keeps the number.\<close>

definition depth :: "state \<Rightarrow> nat" where
  "depth s = nat (max 0 (min (g_depth s) 6))"

definition lookup_cell :: "state \<Rightarrow> nat \<Rightarrow> cell option" where
  "lookup_cell s a = (if a < length (cells s) then Some (cells s ! a) else None)"

definition lookup_eff :: "state \<Rightarrow> nat \<Rightarrow> effect_fn option" where
  "lookup_eff s e = (if e < length (effs s) then Some (effs s ! e) else None)"

definition eff_id :: "state \<Rightarrow> nat \<Rightarrow> string" where
  "eff_id s e = (case lookup_eff s e of Some f \<Rightarrow> e_id f | None \<Rightarrow> [])"

text \<open>An assignment to fields of the cell object \<open>a\<close> (a list update leaves the list as
  it is when \<open>a\<close> names no cell).\<close>

definition upd_cell :: "nat \<Rightarrow> (cell \<Rightarrow> cell) \<Rightarrow> state \<Rightarrow> state" where
  "upd_cell a f s = s\<lparr>cells := (cells s)[a := f (cells s ! a)]\<rparr>"

text \<open>\<^verbatim>\<open>Signal._debug\<close> and the \<^verbatim>\<open>debug\<close> closure of \<^verbatim>\<open>effect\<close>.\<close>

definition debug_signal :: "string \<Rightarrow> dbg_msg \<Rightarrow> state \<Rightarrow> state" where
  "debug_signal i m s =
     (if g_debugEnabled s then s\<lparr>console := console s @ [SignalLine i (depth s) m]\<rparr> else s)"

definition debug_effect :: "effect_fn \<Rightarrow> dbg_msg \<Rightarrow> state \<Rightarrow> state" where
  "debug_effect f m s =
     (if g_debugEnabled s
      then s\<lparr>console := console s @ [EffectLine (e_id f) (depth s) m (e_name f)]\<rparr> else s)"

section \<open>The reactive cell\<close>

text \<open>
  The constructor of \<^verbatim>\<open>Signal\<close>. The default value of the parameter \<^verbatim>\<open>id\<close>, and the
  argument \<^verbatim>\<open>`#d${_id++}`\<close> that \<^verbatim>\<open>DerivedSignal\<close> passes, are evaluated before the body:
  \<^verbatim>\<open>_id\<close> is incremented also when the constructor throws.
\<close>

definition new_signal :: "val \<Rightarrow> bool \<Rightarrow> state \<Rightarrow> (error + nat) \<times> state" where
  "new_signal initialValue is_derived s =
     (let i = (if is_derived then ''#d'' else ''#s'') @ string_of_nat (g_id s);
          s1 = s\<lparr>g_id := g_id s + 1\<rparr>
      in if currentEffect s1 \<noteq> None then (Inl CreatingSignalInsideEffect, s1)
         else
           let s2 = debug_signal i (NewSignal initialValue) s1;
               c = \<lparr>c_id = i, c_value = initialValue, c_effects = [], c_version = 0,
                    c_updateCount = 0, c_derived = is_derived\<rparr>
           in (Inr (length (cells s2)), s2\<lparr>cells := cells s2 @ [c]\<rparr>))"

text \<open>\<^verbatim>\<open>get value\<close>, also of a derived cell, whose override calls \<^verbatim>\<open>super.value\<close>.\<close>

definition get_value :: "nat \<Rightarrow> state \<Rightarrow> completion \<times> state" where
  "get_value a s =
     (case lookup_cell s a of
        None \<Rightarrow> (Thrown BadReference, s)
      | Some c \<Rightarrow>
          let s1 = debug_signal (c_id c) (GetValue (c_value c)) s;
              s2 = s1\<lparr>g_depth := g_depth s1 + 1\<rparr>;
              s3 = (case currentEffect s2 of
                      None \<Rightarrow> s2
                    | Some e \<Rightarrow>
                        if e \<in> set (c_effects c) then s2
                        else upd_cell a (\<lambda>c. c\<lparr>c_effects := c_effects c @ [e]\<rparr>)
                               (debug_signal (c_id c)
                                  (Added (eff_id s2 e) (c_id c) (length (c_effects c))) s2))
          in (Normal (c_value c), s3\<lparr>g_depth := g_depth s3 - 1\<rparr>))"

text \<open>The loop \<^verbatim>\<open>for (const [i, effect] of effects.entries())\<close> of the setter; \<open>run\<close>
  is the call \<^verbatim>\<open>effect()\<close>.\<close>

fun run_effects ::
  "(nat \<Rightarrow> state \<Rightarrow> completion \<times> state) \<Rightarrow> string \<Rightarrow> nat \<Rightarrow> nat \<Rightarrow> nat list \<Rightarrow> state
     \<Rightarrow> completion \<times> state" where
  "run_effects run i k n [] s = (Normal VUndef, s)"
| "run_effects run i k n (e # es) s =
     (let s1 = debug_signal i (WillRun (eff_id s e) (k + 1) n) s
      in case run e s1 of
           (Normal _, s2) \<Rightarrow> run_effects run i (k + 1) n es s2
         | (r, s2) \<Rightarrow> (r, s2))"

text \<open>
  \<^verbatim>\<open>set value\<close>. A derived cell overrides it with an unconditional \<^verbatim>\<open>throw\<close>.
  \<^verbatim>\<open>this._updateCount++ > Signal.UPDATE_COUNT_LIMIT\<close> compares the count before the
  increment. The \<^verbatim>\<open>finally\<close> block runs on return and on a throw of the loop.
\<close>

definition set_value ::
  "(nat \<Rightarrow> state \<Rightarrow> completion \<times> state) \<Rightarrow> nat \<Rightarrow> val \<Rightarrow> state \<Rightarrow> completion \<times> state" where
  "set_value run a newValue s =
     (case lookup_cell s a of
        None \<Rightarrow> (Thrown BadReference, s)
      | Some c \<Rightarrow>
          if c_derived c then (Thrown CannotMutateDerived, s)
          else if strict_eq (c_value c) newValue then (Normal VUndef, s)
          else
            let s1 = debug_signal (c_id c) (StartSet newValue) s;
                s2 = s1\<lparr>g_depth := g_depth s1 + 1\<rparr>;
                s3 = upd_cell a (\<lambda>c. c\<lparr>c_value := newValue, c_version := c_version c + 1\<rparr>) s2;
                effects = c_effects c;
                s4 = upd_cell a (\<lambda>c. c\<lparr>c_updateCount := c_updateCount c + 1\<rparr>) s3
            in if c_updateCount c > UPDATE_COUNT_LIMIT
               then (Thrown (CircularUpdate (c_id c) (length effects)), s4)
               else
                 (case run_effects run (c_id c) 0 (length effects) effects s4 of
                    (OutOfFuel, s5) \<Rightarrow> (OutOfFuel, s5)
                  | (Thrown x, s5) \<Rightarrow>
                      (Thrown x, upd_cell a (\<lambda>c. c\<lparr>c_updateCount := 0\<rparr>) s5)
                  | (Normal _, s5) \<Rightarrow>
                      (let s6 = upd_cell a (\<lambda>c. c\<lparr>c_updateCount := 0\<rparr>) s5;
                           s7 = s6\<lparr>g_depth := g_depth s6 - 1\<rparr>
                       in (Normal VUndef, debug_signal (c_id c) EndSet s7))))"

text \<open>The getter \<^verbatim>\<open>meta\<close>: no subscription, no change of the state.\<close>

definition meta :: "state \<Rightarrow> cell \<Rightarrow> meta_info" where
  "meta s c =
     \<lparr>m_id = c_id c,
      m_effects = map (\<lambda>e. case lookup_eff s e of Some f \<Rightarrow> eid f | None \<Rightarrow> []) (c_effects c),
      m_version = c_version c,
      m_value = c_value c\<rparr>"

section \<open>Effects and derived cells\<close>

text \<open>
  \<^verbatim>\<open>effect\<close>: the check for a running effect, the new wrapper with its id and name, and
  the immediate first call \<^verbatim>\<open>return effectFn()\<close>.
\<close>

definition effect ::
  "(nat \<Rightarrow> state \<Rightarrow> completion \<times> state) \<Rightarrow> string \<Rightarrow> fn_body \<Rightarrow> state \<Rightarrow> completion \<times> state" where
  "effect run name fn s =
     (if currentEffect s \<noteq> None then (Thrown NestedEffectsNotSupported, s)
      else
        let i = ''#e'' @ string_of_nat (g_id s);
            s1 = s\<lparr>g_id := g_id s + 1\<rparr>;
            nm = (if name = [] then ''anonymous'' else name);
            e = length (effs s1);
            s2 = s1\<lparr>effs := effs s1 @ [\<lparr>e_name = nm, e_id = i, e_fn = fn\<rparr>]\<rparr>
        in run e s2)"

text \<open>The constructor of \<^verbatim>\<open>DerivedSignal\<close> and the factory \<^verbatim>\<open>derived\<close>.\<close>

definition derived ::
  "(nat \<Rightarrow> state \<Rightarrow> completion \<times> state) \<Rightarrow> string \<Rightarrow> prog \<Rightarrow> state
     \<Rightarrow> (completion \<times> state) + (nat \<times> state)" where
  "derived run fname computeFn s =
     (case new_signal VUndef True s of
        (Inl x, s1) \<Rightarrow> Inl (Thrown x, s1)
      | (Inr a, s1) \<Rightarrow>
          (case effect run (if fname = [] then ''derived'' else fname) (Recompute a computeFn) s1 of
             (Normal _, s2) \<Rightarrow> Inr (a, s2)
           | (r, s2) \<Rightarrow> Inl (r, s2)))"

text \<open>Running user code against the engine.\<close>

primrec exec_prog ::
  "(nat \<Rightarrow> state \<Rightarrow> completion \<times> state) \<Rightarrow> prog \<Rightarrow> state \<Rightarrow> completion \<times> state" where
  "exec_prog run (Ret v) s = (Normal v, s)"
| "exec_prog run (Throw v) s = (Thrown (UserError v), s)"
| "exec_prog run (State v k) s =
     (case new_signal v False s of
        (Inl x, s1) \<Rightarrow> (Thrown x, s1)
      | (Inr a, s1) \<Rightarrow> exec_prog run (k a) s1)"
| "exec_prog run (Derived fname computeFn k) s =
     (case derived run fname computeFn s of
        Inl r \<Rightarrow> r
      | Inr (a, s1) \<Rightarrow> exec_prog run (k a) s1)"
| "exec_prog run (Effect name fn k) s =
     (case effect run name (Plain fn) s of
        (Normal v, s1) \<Rightarrow> exec_prog run (k v) s1
      | (r, s1) \<Rightarrow> (r, s1))"
| "exec_prog run (Get a k) s =
     (case get_value a s of
        (Normal v, s1) \<Rightarrow> exec_prog run (k v) s1
      | (r, s1) \<Rightarrow> (r, s1))"
| "exec_prog run (Set a v p) s =
     (case set_value run a v s of
        (Normal _, s1) \<Rightarrow> exec_prog run p s1
      | (r, s1) \<Rightarrow> (r, s1))"
| "exec_prog run (Meta a k) s =
     (case lookup_cell s a of
        None \<Rightarrow> (Thrown BadReference, s)
      | Some c \<Rightarrow> exec_prog run (k (meta s c)) s)"
| "exec_prog run (CurrentEffect k) s = exec_prog run (k (currentEffect s)) s"
| "exec_prog run (DebugContext enable reset p) s =
     exec_prog run p (signalDebugContext enable reset s)"
| "exec_prog run (Push v p) s = exec_prog run p (s\<lparr>log := log s @ [v]\<rparr>)"
| "exec_prog run (Try p h k) s =
     (case exec_prog run p s of
        (Normal v, s1) \<Rightarrow> exec_prog run (k v) s1
      | (Thrown x, s1) \<Rightarrow>
          (case exec_prog run (h x) s1 of
             (Normal v, s2) \<Rightarrow> exec_prog run (k v) s2
           | (r, s2) \<Rightarrow> (r, s2))
      | (OutOfFuel, s1) \<Rightarrow> (OutOfFuel, s1))"

text \<open>The call \<^verbatim>\<open>fn()\<close> inside the wrapper.\<close>

definition exec_body ::
  "(nat \<Rightarrow> state \<Rightarrow> completion \<times> state) \<Rightarrow> fn_body \<Rightarrow> state \<Rightarrow> completion \<times> state" where
  "exec_body run b s =
     (case b of
        Plain p \<Rightarrow> exec_prog run p s
      | Recompute a computeFn \<Rightarrow>
          (case exec_prog run computeFn s of
             (Normal v, s1) \<Rightarrow>
               (let s2 = upd_cell a (\<lambda>c. c\<lparr>c_value := v\<rparr>) s1
                in (Normal VUndef,
                    debug_signal (case lookup_cell s2 a of Some c \<Rightarrow> c_id c | None \<Rightarrow> [])
                      (SetDerived v) s2))
           | (r, s1) \<Rightarrow> (r, s1)))"

text \<open>
  The wrapper \<^verbatim>\<open>effectFn\<close>: \<^verbatim>\<open>_depth++\<close>, the slot saved and set, the body in
  \<^verbatim>\<open>try\<close>, the slot restored in \<^verbatim>\<open>finally\<close>, and \<^verbatim>\<open>_depth--\<close> after the
  \<^verbatim>\<open>try\<close> statement, which a throw of the body skips.
\<close>

definition effectFn ::
  "(nat \<Rightarrow> state \<Rightarrow> completion \<times> state) \<Rightarrow> nat \<Rightarrow> state \<Rightarrow> completion \<times> state" where
  "effectFn run e s =
     (case lookup_eff s e of
        None \<Rightarrow> (Thrown BadReference, s)
      | Some f \<Rightarrow>
          let s1 = debug_effect f StartEffect s;
              s2 = s1\<lparr>g_depth := g_depth s1 + 1\<rparr>;
              prevEffect = currentEffect s2;
              s3 = s2\<lparr>currentEffect := Some e\<rparr>
          in case exec_body run (e_fn f) s3 of
               (OutOfFuel, s4) \<Rightarrow> (OutOfFuel, s4)
             | (Thrown x, s4) \<Rightarrow> (Thrown x, s4\<lparr>currentEffect := prevEffect\<rparr>)
             | (Normal result, s4) \<Rightarrow>
                 (let s5 = s4\<lparr>currentEffect := prevEffect\<rparr>;
                      s6 = s5\<lparr>g_depth := g_depth s5 - 1\<rparr>
                  in (Normal result, debug_effect f EndEffect s6)))"

text \<open>
  A wrapper called with fuel \<open>n\<close> may nest \<open>n\<close> wrapper calls; with none left the call
  has not returned.
\<close>

primrec invoke :: "nat \<Rightarrow> nat \<Rightarrow> state \<Rightarrow> completion \<times> state" where
  "invoke 0 e s = (OutOfFuel, s)"
| "invoke (Suc n) e s = effectFn (invoke n) e s"

definition exec :: "nat \<Rightarrow> prog \<Rightarrow> state \<Rightarrow> completion \<times> state" where
  "exec n p s = exec_prog (invoke n) p s"

section \<open>What a run may change\<close>

text \<open>
  The elementary changes the engine makes to the state, closed under composition. A step
  either leaves the cells alone (only the module variables, the tables of wrappers, the
  console and the log change), creates a cell, appends one new subscriber to a cell,
  stores a value in a mutable cell together with its version and update count, sets an
  update count, or assigns the value of a cell directly. Wrappers are only ever added.
  Every run of the engine is such a change (\<open>exec_mut\<close> below), so a property kept by
  each rule is kept by every run.
\<close>

inductive mut :: "state \<Rightarrow> state \<Rightarrow> bool" where
  mut_trans: "mut s t \<Longrightarrow> mut t u \<Longrightarrow> mut s u"
| mut_globals: "cells t = cells s \<Longrightarrow> prefix (effs s) (effs t) \<Longrightarrow> mut s t"
| mut_new:
    "cells t = cells s @ [\<lparr>c_id = i, c_value = v, c_effects = [], c_version = 0,
                           c_updateCount = 0, c_derived = d\<rparr>] \<Longrightarrow>
     prefix (effs s) (effs t) \<Longrightarrow> mut s t"
| mut_subscribe:
    "a < length (cells s) \<Longrightarrow> e \<notin> set (c_effects (cells s ! a)) \<Longrightarrow>
     cells t = (cells s)[a := (cells s ! a)\<lparr>c_effects := c_effects (cells s ! a) @ [e]\<rparr>] \<Longrightarrow>
     prefix (effs s) (effs t) \<Longrightarrow> mut s t"
| mut_write:
    "a < length (cells s) \<Longrightarrow> \<not> c_derived (cells s ! a) \<Longrightarrow>
     cells t = (cells s)[a := (cells s ! a)\<lparr>c_value := v,
                  c_version := c_version (cells s ! a) + 1, c_updateCount := k\<rparr>] \<Longrightarrow>
     prefix (effs s) (effs t) \<Longrightarrow> mut s t"
| mut_count:
    "cells t = (cells s)[a := (cells s ! a)\<lparr>c_updateCount := k\<rparr>] \<Longrightarrow>
     prefix (effs s) (effs t) \<Longrightarrow> mut s t"
| mut_raw:
    "cells t = (cells s)[a := (cells s ! a)\<lparr>c_value := v\<rparr>] \<Longrightarrow>
     prefix (effs s) (effs t) \<Longrightarrow> mut s t"

text \<open>The state in which a call of \<open>derived\<close> ends, thrown or returned.\<close>

definition out_state :: "(completion \<times> state) + (nat \<times> state) \<Rightarrow> state" where
  "out_state r = (case r of Inl (_, s) \<Rightarrow> s | Inr (_, s) \<Rightarrow> s)"


definition derived_unversioned :: "state \<Rightarrow> bool" where
  "derived_unversioned s = (\<forall>c \<in> set (cells s). c_derived c \<longrightarrow> c_version c = 0)"

text \<open>
  Between two states: no cell is lost, and every cell of the later state whose update
  count is not 0 was there before with an update count that was not 0 either.
\<close>

definition rearmed :: "state \<Rightarrow> state \<Rightarrow> bool" where
  "rearmed s t =
     (length (cells s) \<le> length (cells t)
      \<and> (\<forall>a < length (cells t).
            (a < length (cells s) \<and> c_updateCount (cells s ! a) \<noteq> 0)
          \<or> c_updateCount (cells t ! a) = 0))"

text \<open>
  The state a write is in when its subscriber loop starts: value stored, version and
  update count incremented, \<^verbatim>\<open>_depth\<close> incremented.
\<close>

definition stored :: "nat \<Rightarrow> val \<Rightarrow> cell \<Rightarrow> state \<Rightarrow> state" where
  "stored a v c s =
     upd_cell a (\<lambda>c. c\<lparr>c_updateCount := c_updateCount c + 1\<rparr>)
       (upd_cell a (\<lambda>c. c\<lparr>c_value := v, c_version := c_version c + 1\<rparr>)
          ((debug_signal (c_id c) (StartSet v) s)
             \<lparr>g_depth := g_depth (debug_signal (c_id c) (StartSet v) s) + 1\<rparr>))"

section \<open>Scripts of the test suite and stand-in subscribers\<close>


text \<open>
  The test \<^verbatim>\<open>derived\<close>: cells \<^verbatim>\<open>a\<close> and \<^verbatim>\<open>b\<close>, the derived cell
  \<^verbatim>\<open>sum = a + b\<close>, the effect that logs \<^verbatim>\<open>`${a} + ${b} = ${sum}`\<close>, and then the
  writes \<^verbatim>\<open>a.value = 1; b.value = 2\<close>. \<open>scenarioB_mounted\<close> is the state before the
  writes.
\<close>

definition scenarioB_setup :: "(nat \<Rightarrow> nat \<Rightarrow> nat \<Rightarrow> prog) \<Rightarrow> prog" where
  "scenarioB_setup k =
     State (VNum 0) (\<lambda>a. State (VNum 0) (\<lambda>b.
       Derived [] (Get a (\<lambda>x. Get b (\<lambda>y. Ret (js_add x y)))) (\<lambda>sum.
         Effect ''log sum''
           (Get a (\<lambda>x. Get b (\<lambda>y. Get sum (\<lambda>z.
              Push (VStr (js_to_string x @ '' + '' @ js_to_string y @ '' = '' @ js_to_string z))
                (Ret VUndef)))))
           (\<lambda>_. k a b sum))))"

definition scenarioB :: prog where
  "scenarioB = scenarioB_setup (\<lambda>a b sum. Set a (VNum 1) (Set b (VNum 2) (Ret VUndef)))"


text \<open>
  A derived cell of a constant, as in the test \<^verbatim>\<open>derived non reactive\<close>.
\<close>

definition const_derived_script :: prog where
  "const_derived_script = Derived [] (Ret (VNum 7)) (\<lambda>d. Ret VUndef)"

definition const_derived_state :: state where
  "const_derived_state = snd (exec 1 const_derived_script init)"

text \<open>
  An effect whose body throws on its first run; and an effect that throws when it is
  replayed by the write of 1, with the state before that write.
\<close>

definition throwing_effect :: prog where
  "throwing_effect = Effect [] (Throw (VStr ''boom'')) Ret"

definition throwing_replay :: prog where
  "throwing_replay =
     State (VNum 0) (\<lambda>c.
       Effect [] (Get c (\<lambda>v. if v = VNum 1 then Throw (VStr ''boom'') else Ret VUndef))
         (\<lambda>_. Set c (VNum 1) (Ret VUndef)))"


text \<open>
  A cell with one effect that writes the cell again while its value is between 0 and
  \<open>N\<close>: \<^verbatim>\<open>effect(() => { const v = c.value; if (0 < v && v < N) c.value = v + 1 })\<close>
  followed by \<^verbatim>\<open>c.value = 1\<close>. Every write happens inside the subscriber loop of the
  write before it. \<open>counter_state\<close> is the state of this program with update count
  \<open>k\<close>, value \<open>v\<close>, version \<open>ver\<close>, depth \<open>d\<close> and slot \<open>cur\<close>.
\<close>

definition loop_body :: "nat \<Rightarrow> int \<Rightarrow> prog" where
  "loop_body c N =
     Get c (\<lambda>v. case v of
                  VNum x \<Rightarrow> if 0 < x \<and> x < N then Set c (VNum (x + 1)) (Ret VUndef) else Ret VUndef
                | _ \<Rightarrow> Ret VUndef)"

definition counter_script :: "int \<Rightarrow> prog" where
  "counter_script N =
     State (VNum 0) (\<lambda>c. Effect [] (loop_body c N) (\<lambda>_. Set c (VNum 1) (Ret VUndef)))"

definition counter_fn :: "int \<Rightarrow> effect_fn" where
  "counter_fn N = \<lparr>e_name = ''anonymous'', e_id = ''#e1'', e_fn = Plain (loop_body 0 N)\<rparr>"

definition counter_state :: "int \<Rightarrow> nat \<Rightarrow> int \<Rightarrow> nat \<Rightarrow> int \<Rightarrow> nat option \<Rightarrow> state" where
  "counter_state N k v ver d cur =
     \<lparr>g_id = 2, g_depth = d, g_debugEnabled = False, currentEffect = cur,
      cells = [\<lparr>c_id = ''#s0'', c_value = VNum v, c_effects = [0], c_version = ver,
                c_updateCount = k, c_derived = False\<rparr>],
      effs = [\<lparr>e_name = ''anonymous'', e_id = ''#e1'', e_fn = Plain (loop_body 0 N)\<rparr>],
      console = [], log = []\<rparr>"

text \<open>The end of a write to that cell after its subscriber loop has returned: the
  \<^verbatim>\<open>finally\<close> block, \<^verbatim>\<open>_depth--\<close> and the closing debug line.\<close>

definition end_set :: "state \<Rightarrow> state" where
  "end_set s2 =
     debug_signal ''#s0'' EndSet
       ((upd_cell 0 (\<lambda>c. c\<lparr>c_updateCount := 0\<rparr>) s2)\<lparr>g_depth := g_depth s2 - 1\<rparr>)"











text \<open>
  Between two states: no cell is lost, a cell stays mutable or derived, its version does
  not fall, and a mutable cell whose version is the same holds the same value.
\<close>

definition kept :: "state \<Rightarrow> state \<Rightarrow> bool" where
  "kept s t =
     (length (cells s) \<le> length (cells t)
      \<and> (\<forall>a < length (cells s).
            c_derived (cells t ! a) = c_derived (cells s ! a)
          \<and> c_version (cells s ! a) \<le> c_version (cells t ! a)
          \<and> (\<not> c_derived (cells s ! a) \<longrightarrow> c_version (cells t ! a) = c_version (cells s ! a) \<longrightarrow>
                c_value (cells t ! a) = c_value (cells s ! a))))"


section \<open>Projections of the state updates\<close>

lemma debug_signal_fields [simp]:
  "cells (debug_signal i m s) = cells s"
  "effs (debug_signal i m s) = effs s"
  "currentEffect (debug_signal i m s) = currentEffect s"
  "g_depth (debug_signal i m s) = g_depth s"
  "g_id (debug_signal i m s) = g_id s"
  "g_debugEnabled (debug_signal i m s) = g_debugEnabled s"
  "log (debug_signal i m s) = log s"
  by (simp_all add: debug_signal_def)

lemma debug_effect_fields [simp]:
  "cells (debug_effect f m s) = cells s"
  "effs (debug_effect f m s) = effs s"
  "currentEffect (debug_effect f m s) = currentEffect s"
  "g_depth (debug_effect f m s) = g_depth s"
  "g_id (debug_effect f m s) = g_id s"
  "g_debugEnabled (debug_effect f m s) = g_debugEnabled s"
  "log (debug_effect f m s) = log s"
  by (simp_all add: debug_effect_def)

lemma upd_cell_fields [simp]:
  "cells (upd_cell a f s) = (cells s)[a := f (cells s ! a)]"
  "effs (upd_cell a f s) = effs s"
  "currentEffect (upd_cell a f s) = currentEffect s"
  "g_depth (upd_cell a f s) = g_depth s"
  "g_id (upd_cell a f s) = g_id s"
  "g_debugEnabled (upd_cell a f s) = g_debugEnabled s"
  "log (upd_cell a f s) = log s"
  "console (upd_cell a f s) = console s"
  by (auto simp: upd_cell_def)

lemma lookup_cell_Some: "lookup_cell s a = Some c \<longleftrightarrow> a < length (cells s) \<and> c = cells s ! a"
  by (auto simp: lookup_cell_def)

lemma lookup_cell_None: "lookup_cell s a = None \<longleftrightarrow> \<not> a < length (cells s)"
  by (auto simp: lookup_cell_def)

section \<open>Every run is a composition of the elementary changes\<close>

lemma mut_refl: "mut s s"
  by (rule mut_globals) simp_all

lemma new_signal_mut: "mut s (snd (new_signal v d s))"
proof (cases "currentEffect s")
  case None
  show ?thesis
    by (rule mut_new[where i = "(if d then ''#d'' else ''#s'') @ string_of_nat (g_id s)"
          and v = v and d = d])
       (simp_all add: new_signal_def Let_def None)
next
  case (Some e)
  show ?thesis by (rule mut_globals) (simp_all add: new_signal_def Let_def Some)
qed

lemma get_value_mut: "mut s (snd (get_value a s))"
proof (cases "lookup_cell s a")
  case None
  then show ?thesis by (simp add: get_value_def mut_refl)
next
  case (Some c)
  then have a: "a < length (cells s)" and c: "c = cells s ! a"
    by (simp_all add: lookup_cell_Some)
  show ?thesis
  proof (cases "\<exists>e. currentEffect s = Some e \<and> e \<notin> set (c_effects c)")
    case True
    then obtain e where e: "currentEffect s = Some e" "e \<notin> set (c_effects c)" by blast
    show ?thesis
      by (rule mut_subscribe[where a = a and e = e])
         (use a c e Some in \<open>simp_all add: get_value_def Let_def\<close>)
  next
    case False
    show ?thesis
      by (rule mut_globals)
         (use False Some in \<open>auto simp: get_value_def Let_def split: option.splits\<close>)
  qed
qed

lemma run_effects_mut:
  assumes "\<And>e t. mut t (snd (run e t))"
  shows "mut s (snd (run_effects run i k n es s))"
proof (induction es arbitrary: s k)
  case Nil
  show ?case by (simp add: mut_refl)
next
  case (Cons e es)
  let ?s1 = "debug_signal i (WillRun (eff_id s e) (k + 1) n) s"
  obtain r s2 where r: "run e ?s1 = (r, s2)" by (cases "run e ?s1")
  have "mut s ?s1" by (rule mut_globals) simp_all
  moreover have "mut ?s1 s2" using assms[of ?s1 e] r by simp
  ultimately have m: "mut s s2" by (rule mut_trans)
  show ?case
  proof (cases r)
    case (Normal x)
    then show ?thesis using r mut_trans[OF m Cons.IH[of s2 "k + 1"]]
      by (simp add: Let_def)
  qed (use r m in \<open>simp_all add: Let_def\<close>)
qed

lemma set_value_mut:
  assumes "\<And>e t. mut t (snd (run e t))"
  shows "mut s (snd (set_value run a v s))"
proof (cases "lookup_cell s a")
  case None
  then show ?thesis by (simp add: set_value_def mut_refl)
next
  case (Some c)
  then have a: "a < length (cells s)" and c: "c = cells s ! a"
    by (simp_all add: lookup_cell_Some)
  show ?thesis
  proof (cases "c_derived c \<or> strict_eq (c_value c) v")
    case True
    then show ?thesis using Some by (auto simp: set_value_def mut_refl)
  next
    case False
    define s4 where "s4 =
      upd_cell a (\<lambda>c. c\<lparr>c_updateCount := c_updateCount c + 1\<rparr>)
        (upd_cell a (\<lambda>c. c\<lparr>c_value := v, c_version := c_version c + 1\<rparr>)
          ((debug_signal (c_id c) (StartSet v) s)
             \<lparr>g_depth := g_depth (debug_signal (c_id c) (StartSet v) s) + 1\<rparr>))"
    have m4: "mut s s4"
      by (rule mut_write[where a = a and v = v and k = "c_updateCount c + 1"])
         (use a c False in \<open>simp_all add: s4_def\<close>)
    show ?thesis
    proof (cases "c_updateCount c > UPDATE_COUNT_LIMIT")
      case True
      then show ?thesis using Some False m4 by (simp add: set_value_def Let_def s4_def)
    next
      case lim: False
      obtain r s5 where r: "run_effects run (c_id c) 0 (length (c_effects c)) (c_effects c) s4 = (r, s5)"
        by (cases "run_effects run (c_id c) 0 (length (c_effects c)) (c_effects c) s4")
      have "mut s4 s5"
        using run_effects_mut[of run s4 "c_id c" 0 "length (c_effects c)" "c_effects c", OF assms] r
        by simp
      then have m5: "mut s s5" by (rule mut_trans[OF m4])
      have m6: "mut s (upd_cell a (\<lambda>c. c\<lparr>c_updateCount := 0\<rparr>) s5)"
        by (rule mut_trans[OF m5]) (rule mut_count[where a = a and k = 0], simp_all)
      have m7: "mut s (debug_signal (c_id c) EndSet
                  ((upd_cell a (\<lambda>c. c\<lparr>c_updateCount := 0\<rparr>) s5)
                     \<lparr>g_depth := g_depth (upd_cell a (\<lambda>c. c\<lparr>c_updateCount := 0\<rparr>) s5) - 1\<rparr>))"
        by (rule mut_trans[OF m5]) (rule mut_count[where a = a and k = 0], simp_all)
      show ?thesis using Some False lim r m5 m6 m7
        by (cases r) (simp_all add: set_value_def Let_def s4_def)
    qed
  qed
qed

lemma effect_mut:
  assumes "\<And>e t. mut t (snd (run e t))"
  shows "mut s (snd (effect run name fn s))"
proof (cases "currentEffect s")
  case None
  define s2 where "s2 = s\<lparr>g_id := g_id s + 1,
              effs := effs s @ [\<lparr>e_name = (if name = [] then ''anonymous'' else name),
                                e_id = ''#e'' @ string_of_nat (g_id s), e_fn = fn\<rparr>]\<rparr>"
  have "mut s s2" by (rule mut_globals) (simp_all add: s2_def)
  then have "mut s (snd (run (length (effs s)) s2))"
    by (rule mut_trans[OF _ assms])
  then show ?thesis using None by (simp add: effect_def Let_def s2_def)
next
  case (Some e)
  then show ?thesis by (simp add: effect_def mut_refl)
qed

lemma derived_mut:
  assumes "\<And>e t. mut t (snd (run e t))"
  shows "mut s (out_state (derived run fname computeFn s))"
proof -
  obtain x s1 where n: "new_signal VUndef True s = (x, s1)" by (cases "new_signal VUndef True s")
  have m1: "mut s s1" using new_signal_mut[of s VUndef True] n by simp
  show ?thesis
  proof (cases x)
    case (Inl err)
    then show ?thesis using n m1 by (simp add: derived_def out_state_def)
  next
    case (Inr a)
    define nm where "nm = (if fname = [] then ''derived'' else fname)"
    obtain r s2 where e: "effect run nm (Recompute a computeFn) s1 = (r, s2)"
      by (cases "effect run nm (Recompute a computeFn) s1")
    have "mut s1 s2" using effect_mut[of run s1 nm "Recompute a computeFn", OF assms] e
      by simp
    then have "mut s s2" by (rule mut_trans[OF m1])
    then show ?thesis using n Inr e
      by (cases r) (simp_all add: derived_def out_state_def nm_def)
  qed
qed

lemma exec_prog_mut:
  assumes run: "\<And>e t. mut t (snd (run e t))"
  shows "mut s (snd (exec_prog run p s))"
proof (induction p arbitrary: s)
  case (Ret v)
  show ?case by (simp add: mut_refl)
next
  case (Throw v)
  show ?case by (simp add: mut_refl)
next
  case (State v k)
  obtain x s1 where n: "new_signal v False s = (x, s1)" by (cases "new_signal v False s")
  have m1: "mut s s1" using new_signal_mut[of s v False] n by simp
  show ?case using n m1 mut_trans[OF m1 State.IH]
    by (cases x) simp_all
next
  case (Derived fname computeFn k)
  have m: "mut s (out_state (derived run fname computeFn s))" by (rule derived_mut[OF run])
  show ?case
  proof (cases "derived run fname computeFn s")
    case (Inl r)
    then show ?thesis using m by (cases r) (simp add: out_state_def)
  next
    case (Inr r)
    then show ?thesis using mut_trans[OF m Derived.IH(2)]
      by (cases r) (simp add: out_state_def)
  qed
next
  case (Effect name fn k)
  obtain r s1 where e: "effect run name (Plain fn) s = (r, s1)" by (cases "effect run name (Plain fn) s")
  have m1: "mut s s1" using effect_mut[of run s name "Plain fn", OF run] e by simp
  show ?case using e m1 mut_trans[OF m1 Effect.IH(2)]
    by (cases r) simp_all
next
  case (Get a k)
  obtain r s1 where e: "get_value a s = (r, s1)" by (cases "get_value a s")
  have m1: "mut s s1" using get_value_mut[of s a] e by simp
  show ?case using e m1 mut_trans[OF m1 Get.IH]
    by (cases r) simp_all
next
  case (Set a v p)
  obtain r s1 where e: "set_value run a v s = (r, s1)" by (cases "set_value run a v s")
  have m1: "mut s s1" using set_value_mut[of run s a v, OF run] e by simp
  show ?case using e m1 mut_trans[OF m1 Set.IH]
    by (cases r) simp_all
next
  case (Meta a k)
  show ?case using Meta.IH by (simp add: mut_refl split: option.splits)
next
  case (CurrentEffect k)
  show ?case using CurrentEffect.IH by simp
next
  case (DebugContext enable reset p)
  have "mut s (signalDebugContext enable reset s)"
    by (rule mut_globals) (simp_all add: signalDebugContext_def Let_def)
  then show ?case using mut_trans[OF _ DebugContext.IH] by simp
next
  case (Push v p)
  have "mut s (s\<lparr>log := log s @ [v]\<rparr>)" by (rule mut_globals) simp_all
  then show ?case using mut_trans[OF _ Push.IH] by simp
next
  case (Try p h k)
  obtain r s1 where e: "exec_prog run p s = (r, s1)" by (cases "exec_prog run p s")
  have m1: "mut s s1" using Try.IH(1)[of s] e by simp
  show ?case
  proof (cases r)
    case (Normal v)
    then show ?thesis using e mut_trans[OF m1 Try.IH(3)] by simp
  next
    case (Thrown x)
    obtain r2 s2 where e2: "exec_prog run (h x) s1 = (r2, s2)" by (cases "exec_prog run (h x) s1")
    have "mut s1 s2" using Try.IH(2)[of "h x" s1] e2 by simp
    then have m2: "mut s s2" by (rule mut_trans[OF m1])
    show ?thesis using e Thrown e2 m2 mut_trans[OF m2 Try.IH(3)]
      by (cases r2) simp_all
  next
    case OutOfFuel
    then show ?thesis using e m1 by simp
  qed
qed

lemma exec_body_mut:
  assumes run: "\<And>e t. mut t (snd (run e t))"
  shows "mut s (snd (exec_body run b s))"
proof (cases b)
  case (Plain p)
  then show ?thesis by (simp add: exec_body_def exec_prog_mut[OF run])
next
  case (Recompute a computeFn)
  obtain r s1 where e: "exec_prog run computeFn s = (r, s1)" by (cases "exec_prog run computeFn s")
  have m1: "mut s s1" using exec_prog_mut[of run s computeFn, OF run] e by simp
  have "mut s (debug_signal i (SetDerived v) (upd_cell a (\<lambda>c. c\<lparr>c_value := v\<rparr>) s1))" for i v
    by (rule mut_trans[OF m1]) (rule mut_raw[where a = a and v = v], simp_all)
  then show ?thesis using Recompute e m1
    by (cases r) (simp_all add: exec_body_def Let_def)
qed

lemma effectFn_mut:
  assumes run: "\<And>e t. mut t (snd (run e t))"
  shows "mut s (snd (effectFn run e s))"
proof (cases "lookup_eff s e")
  case None
  then show ?thesis by (simp add: effectFn_def mut_refl)
next
  case (Some f)
  define s3 where "s3 = (debug_effect f StartEffect s)
     \<lparr>g_depth := g_depth (debug_effect f StartEffect s) + 1, currentEffect := Some e\<rparr>"
  have m3: "mut s s3" by (rule mut_globals) (simp_all add: s3_def)
  obtain r s4 where b: "exec_body run (e_fn f) s3 = (r, s4)" by (cases "exec_body run (e_fn f) s3")
  have "mut s3 s4" using exec_body_mut[of run s3 "e_fn f", OF run] b by simp
  then have m4: "mut s s4" by (rule mut_trans[OF m3])
  have m5: "mut s (s4\<lparr>currentEffect := c\<rparr>)" for c
    by (rule mut_trans[OF m4]) (rule mut_globals, simp_all)
  have m6: "mut s (debug_effect f EndEffect (s4\<lparr>currentEffect := c, g_depth := d\<rparr>))" for c d
    by (rule mut_trans[OF m4]) (rule mut_globals, simp_all)
  show ?thesis using Some b m4 m5 m6
    by (cases r) (simp_all add: effectFn_def Let_def s3_def)
qed

lemma invoke_mut: "mut s (snd (invoke n e s))"
proof (induction n arbitrary: e s)
  case 0
  show ?case by (simp add: mut_refl)
next
  case (Suc n)
  show ?case by (simp add: effectFn_mut[OF Suc.IH])
qed

lemma exec_mut: "mut s (snd (exec n p s))"
  by (simp add: exec_def exec_prog_mut[OF invoke_mut])

section \<open>What the elementary changes preserve\<close>

lemma mut_length: "mut s t \<Longrightarrow> length (cells s) \<le> length (cells t)"
  by (induction rule: mut.induct) simp_all

lemma mut_effs: "mut s t \<Longrightarrow> prefix (effs s) (effs t)"
  by (induction rule: mut.induct) (auto intro: prefix_order.trans)


lemma all_set_update:
  assumes "\<forall>c \<in> set xs. P c" and "a < length xs \<Longrightarrow> P y"
  shows "\<forall>c \<in> set (xs[a := y]). P c"
proof (cases "a < length xs")
  case True
  then show ?thesis using assms by (auto simp: set_conv_nth nth_list_update)
next
  case False
  then show ?thesis using assms by (simp add: list_update_beyond)
qed


lemma mut_derived_unversioned:
  "mut s t \<Longrightarrow> derived_unversioned s \<Longrightarrow> derived_unversioned t"
  unfolding derived_unversioned_def
proof (induction rule: mut.induct)
  case (mut_subscribe a s e t)
  show ?case unfolding mut_subscribe.hyps(3)
    by (rule all_set_update) (use mut_subscribe in auto)
next
  case (mut_write a s t v k)
  show ?case unfolding mut_write.hyps(3)
    by (rule all_set_update) (use mut_write in auto)
next
  case (mut_count t s a k)
  show ?case unfolding mut_count.hyps(1)
    by (rule all_set_update) (use mut_count in auto)
next
  case (mut_raw t s a v)
  show ?case unfolding mut_raw.hyps(1)
    by (rule all_set_update) (use mut_raw in auto)
qed auto

section \<open>The self-writing effect\<close>

lemma set_value_counter:
  assumes "v \<noteq> w" and "k \<le> 1000"
  shows "set_value run 0 (VNum w) (counter_state N k v ver d cur) =
     (case run 0 (counter_state N (Suc k) w (Suc ver) (d + 1) cur) of
        (Normal x, s2) \<Rightarrow> (Normal VUndef, end_set s2)
      | (Thrown x, s2) \<Rightarrow> (Thrown x, upd_cell 0 (\<lambda>c. c\<lparr>c_updateCount := 0\<rparr>) s2)
      | (OutOfFuel, s2) \<Rightarrow> (OutOfFuel, s2))"
  using assms
  by (simp add: set_value_def lookup_cell_def upd_cell_def debug_signal_def Let_def
        UPDATE_COUNT_LIMIT_def counter_state_def end_set_def
        split: prod.splits completion.splits)

lemma set_value_counter_trip:
  assumes "v \<noteq> w" and "1000 < k"
  shows "set_value run 0 (VNum w) (counter_state N k v ver d cur) =
     (Thrown (CircularUpdate ''#s0'' 1), counter_state N (Suc k) w (Suc ver) (d + 1) cur)"
  using assms
  by (simp add: set_value_def lookup_cell_def upd_cell_def debug_signal_def Let_def
        UPDATE_COUNT_LIMIT_def counter_state_def)

lemma get_value_counter:
  "get_value 0 (counter_state N k v ver d (Some 0)) =
     (Normal (VNum v), counter_state N k v ver d (Some 0))"
  by (simp add: get_value_def lookup_cell_def debug_signal_def Let_def counter_state_def)

lemma effectFn_counter:
  "effectFn run 0 (counter_state N k v ver d cur) =
     (case exec_prog run (loop_body 0 N) (counter_state N k v ver (d + 1) (Some 0)) of
        (Normal x, s4) \<Rightarrow>
          (Normal x, debug_effect (counter_fn N) EndEffect
                       (s4\<lparr>currentEffect := cur, g_depth := g_depth s4 - 1\<rparr>))
      | (Thrown x, s4) \<Rightarrow> (Thrown x, s4\<lparr>currentEffect := cur\<rparr>)
      | (OutOfFuel, s4) \<Rightarrow> (OutOfFuel, s4))"
  by (simp add: effectFn_def exec_body_def lookup_eff_def debug_effect_def Let_def
        counter_state_def counter_fn_def split: prod.splits completion.splits)

lemma set_value_returns_undefined: "set_value run a v s = (Normal x, t) \<Longrightarrow> x = VUndef"
  by (auto simp: set_value_def Let_def split: option.splits if_splits prod.splits completion.splits)

lemma exec_prog_Set_Ret: "exec_prog run (Set a v (Ret VUndef)) s = set_value run a v s"
proof (cases "set_value run a v s")
  case (Pair r t)
  then show ?thesis using set_value_returns_undefined[of run a v s _ t]
    by (cases r) simp_all
qed

lemma loop_body_counter:
  "exec_prog run (loop_body 0 N) (counter_state N k v ver d (Some 0)) =
     (if 0 < v \<and> v < N
      then set_value run 0 (VNum (v + 1)) (counter_state N k v ver d (Some 0))
      else (Normal VUndef, counter_state N k v ver d (Some 0)))"
  by (simp add: loop_body_def get_value_counter exec_prog_Set_Ret del: exec_prog.simps(7))

lemma counter_state_simps:
  "end_set (counter_state N k v ver d cur) = counter_state N 0 v ver (d - 1) cur"
  "upd_cell 0 (\<lambda>c. c\<lparr>c_updateCount := 0\<rparr>) (counter_state N k v ver d cur) =
     counter_state N 0 v ver d cur"
  "(counter_state N k v ver d cur)\<lparr>currentEffect := cur'\<rparr> = counter_state N k v ver d cur'"
  "(counter_state N k v ver d cur)\<lparr>g_depth := d'\<rparr> = counter_state N k v ver d' cur"
  "debug_effect f m (counter_state N k v ver d cur) = counter_state N k v ver d cur"
  "debug_signal i m (counter_state N k v ver d cur) = counter_state N k v ver d cur"
  by (simp_all add: counter_state_def end_set_def upd_cell_def debug_signal_def debug_effect_def)

lemma counter_state_depth [simp]: "g_depth (counter_state N k v ver d cur) = d"
  by (simp add: counter_state_def)


lemma counter_chain_trip:
  "m \<le> 1001 \<Longrightarrow> 0 < v \<Longrightarrow> v + int m < N \<Longrightarrow> m < n \<Longrightarrow>
   invoke n 0 (counter_state N (1001 - m) v ver d cur) =
     (Thrown (CircularUpdate ''#s0'' 1),
      counter_state N (if m = 0 then 1002 else 0) (v + int m + 1) (ver + m + 1)
        (d + 2 * int m + 2) cur)"
proof (induction m arbitrary: n v ver d cur)
  case 0
  then obtain n' where n: "n = Suc n'" by (cases n) auto
  have vN: "v \<noteq> v + 1" "(1000::nat) < 1001 - 0" by simp_all
  show ?case
    unfolding n invoke.simps effectFn_counter loop_body_counter set_value_counter_trip[OF vN]
    using 0 by (simp add: counter_state_simps ac_simps)
next
  case (Suc m)
  then obtain n' where n: "n = Suc n'" and n': "m < n'" by (cases n) auto
  have k: "Suc (1001 - Suc m) = 1001 - m" using Suc.prems by simp
  have vN: "v \<noteq> v + 1" "1001 - Suc m \<le> 1000" using Suc.prems by simp_all
  have step: "invoke n' 0 (counter_state N (Suc (1001 - Suc m)) (v + 1) (Suc ver) (d + 1 + 1) (Some 0)) =
     (Thrown (CircularUpdate ''#s0'' 1),
      counter_state N (if m = 0 then 1002 else 0) (v + 1 + int m + 1) (Suc ver + m + 1)
        (d + 1 + 1 + 2 * int m + 2) (Some 0))"
    unfolding k using Suc.IH[of "v + 1" n' "Suc ver" "d + 1 + 1" "Some 0"] Suc.prems n'
    by simp
  show ?case
    unfolding n invoke.simps effectFn_counter loop_body_counter
      set_value_counter[OF vN] step
    using Suc.prems by (simp add: counter_state_simps ac_simps)
qed

lemma string_of_nat_digit: "n < 10 \<Longrightarrow> string_of_nat n = [''0123456789'' ! n]"
  by (simp add: string_of_nat.simps)

lemma counter_script_mounted:
  "exec_prog (invoke (Suc n)) (counter_script N) init =
     set_value (invoke (Suc n)) 0 (VNum 1) (counter_state N 0 0 0 0 None)"
  by (simp add: counter_script_def init_def new_signal_def effect_def effectFn_def
        exec_body_def get_value_def lookup_cell_def lookup_eff_def upd_cell_def
        debug_signal_def debug_effect_def Let_def counter_state_def loop_body_def
        string_of_nat_digit exec_prog_Set_Ret numeral_2_eq_2 del: exec_prog.simps(7))


lemma counter_script_trip:
  assumes "1001 \<le> n" and "1002 \<le> N"
  shows "exec n (counter_script N) init =
     (Thrown (CircularUpdate ''#s0'' 1), counter_state N 0 1002 1002 2003 None)"
proof -
  obtain n' where n: "n = Suc n'" using assms by (cases n) auto
  have "invoke n 0 (counter_state N (1001 - 1000) 1 1 1 None) =
     (Thrown (CircularUpdate ''#s0'' 1),
      counter_state N (if (1000::nat) = 0 then 1002 else 0) (1 + int 1000 + 1) (1 + 1000 + 1)
        (1 + 2 * int 1000 + 2) None)"
    by (rule counter_chain_trip) (use assms in simp_all)
  then have step: "invoke n 0 (counter_state N (Suc 0) 1 (Suc 0) (0 + 1) None) =
     (Thrown (CircularUpdate ''#s0'' 1), counter_state N 0 1002 1002 2003 None)" by simp
  have c: "(0::int) \<noteq> 1" "(0::nat) \<le> 1000" by simp_all
  have "exec n (counter_script N) init =
        set_value (invoke n) 0 (VNum 1) (counter_state N 0 0 0 0 None)"
    by (simp only: exec_def n counter_script_mounted)
  also have "\<dots> = (Thrown (CircularUpdate ''#s0'' 1), counter_state N 0 1002 1002 2003 None)"
    unfolding set_value_counter[OF c] step by (simp add: counter_state_simps ac_simps)
  finally show ?thesis .
qed

section \<open>The scripts, evaluated\<close>

lemma scenarioB_run:
  "fst (exec 1 scenarioB init) = Normal VUndef"
  "log (snd (exec 1 scenarioB init)) = [VStr ''0 + 0 = 0'', VStr ''1 + 0 = 1'', VStr ''1 + 2 = 3'']"
  "map c_derived (cells (snd (exec 1 scenarioB init))) = [False, False, True]"
  "map c_version (cells (snd (exec 1 scenarioB init))) = [1, 1, 0]"
  "map c_effects (cells (snd (exec 1 scenarioB init))) = [[0, 1], [0, 1], [1]]"
  "map c_value (cells (snd (exec 1 scenarioB init))) = [VNum 1, VNum 2, VNum 3]"
  by code_simp+


section \<open>The subscriber loop and the setter\<close>


lemma set_value_unfold:
  assumes "lookup_cell s a = Some c" and "\<not> c_derived c" and "\<not> strict_eq (c_value c) v"
  shows "set_value run a v s =
     (if UPDATE_COUNT_LIMIT < c_updateCount c
      then (Thrown (CircularUpdate (c_id c) (length (c_effects c))), stored a v c s)
      else (case run_effects run (c_id c) 0 (length (c_effects c)) (c_effects c) (stored a v c s) of
              (OutOfFuel, s5) \<Rightarrow> (OutOfFuel, s5)
            | (Thrown x, s5) \<Rightarrow> (Thrown x, upd_cell a (\<lambda>c. c\<lparr>c_updateCount := 0\<rparr>) s5)
            | (Normal _, s5) \<Rightarrow>
                (Normal VUndef,
                 debug_signal (c_id c) EndSet
                   ((upd_cell a (\<lambda>c. c\<lparr>c_updateCount := 0\<rparr>) s5)\<lparr>g_depth := g_depth s5 - 1\<rparr>))))"
  using assms by (simp add: set_value_def stored_def Let_def split: prod.splits completion.splits)

lemma stored_cell:
  assumes "lookup_cell s a = Some c"
  shows "a < length (cells (stored a v c s))"
    and "cells (stored a v c s) ! a =
           c\<lparr>c_value := v, c_version := c_version c + 1, c_updateCount := c_updateCount c + 1\<rparr>"
  using assms by (simp_all add: stored_def lookup_cell_Some)


lemma const_derived_run:
  "fst (exec 1 const_derived_script init) = Normal VUndef"
  "length (cells const_derived_state) = 1"
  "cells const_derived_state ! 0 =
     \<lparr>c_id = ''#d0'', c_value = VNum 7, c_effects = [], c_version = 0,
      c_updateCount = 0, c_derived = True\<rparr>"
  "cells const_derived_state =
     [\<lparr>c_id = ''#d0'', c_value = VNum 7, c_effects = [], c_version = 0,
       c_updateCount = 0, c_derived = True\<rparr>]"
  by code_simp+


lemma effectFn_throw_keeps_depth:
  assumes "lookup_eff s e = Some f"
    and "exec_body run (e_fn f)
           ((debug_effect f StartEffect s)\<lparr>g_depth := g_depth s + 1, currentEffect := Some e\<rparr>)
         = (Thrown x, t)"
  shows "effectFn run e s = (Thrown x, t\<lparr>currentEffect := currentEffect s\<rparr>)"
  using assms by (simp add: effectFn_def Let_def)

lemma effectFn_restores_slot:
  "fst (effectFn run e s) \<noteq> OutOfFuel \<Longrightarrow> currentEffect (snd (effectFn run e s)) = currentEffect s"
  by (auto simp: effectFn_def Let_def split: option.splits prod.splits completion.splits)


lemma counter_cell:
  "lookup_cell (counter_state N k v ver d cur) 0 =
     Some \<lparr>c_id = ''#s0'', c_value = VNum v, c_effects = [0], c_version = ver,
           c_updateCount = k, c_derived = False\<rparr>"
  "cells (counter_state N k v ver d cur) ! 0 =
     \<lparr>c_id = ''#s0'', c_value = VNum v, c_effects = [0], c_version = ver,
      c_updateCount = k, c_derived = False\<rparr>"
  by (simp_all add: lookup_cell_def counter_state_def)

lemma counter_idle_write:
  assumes "v \<noteq> w" and "\<not> (0 < w \<and> w < N)" and "k \<le> 1000"
  shows "set_value (invoke (Suc n)) 0 (VNum w) (counter_state N k v ver d cur) =
           (Normal VUndef, counter_state N 0 w (Suc ver) d cur)"
  unfolding set_value_counter[OF assms(1,3)] invoke.simps effectFn_counter loop_body_counter
  using assms(2) by (auto simp: counter_state_simps)

section \<open>Update counts after a run that ends\<close>

lemma rearmed_trans: "rearmed s t \<Longrightarrow> rearmed t u \<Longrightarrow> rearmed s u"
  unfolding rearmed_def by (metis le_trans not_le)

lemma rearmed_globals: "cells t = cells s \<Longrightarrow> rearmed s t"
  by (auto simp: rearmed_def)

lemma rearmed_refl: "rearmed s s"
  by (rule rearmed_globals) simp

lemma new_signal_rearmed: "rearmed s (snd (new_signal v d s))"
  by (auto simp: new_signal_def Let_def rearmed_def nth_append)

lemma get_value_rearmed: "rearmed s (snd (get_value a s))"
  by (auto simp: get_value_def Let_def rearmed_def lookup_cell_def nth_list_update
        split: option.splits)

lemma run_effects_rearmed:
  assumes "\<And>e t. fst (run e t) \<noteq> OutOfFuel \<Longrightarrow> rearmed t (snd (run e t))"
  shows "fst (run_effects run i k n es s) \<noteq> OutOfFuel \<Longrightarrow>
         rearmed s (snd (run_effects run i k n es s))"
proof (induction es arbitrary: s k)
  case Nil
  show ?case by (simp add: rearmed_refl)
next
  case (Cons e es)
  let ?s1 = "debug_signal i (WillRun (eff_id s e) (k + 1) n) s"
  obtain r s2 where r: "run e ?s1 = (r, s2)" by (cases "run e ?s1")
  have f: "r \<noteq> OutOfFuel" using Cons.prems r by (auto simp: Let_def)
  have "rearmed ?s1 s2" using assms[of e ?s1] r f by simp
  then have m: "rearmed s s2" by (rule rearmed_trans[OF rearmed_globals, rotated]) simp
  show ?case
  proof (cases r)
    case (Normal x)
    then have "fst (run_effects run i (k + 1) n es s2) \<noteq> OutOfFuel"
      using Cons.prems r by (simp add: Let_def)
    then show ?thesis using Normal r rearmed_trans[OF m Cons.IH[of "k + 1" s2]]
      by (simp add: Let_def)
  qed (use r m f in \<open>simp_all add: Let_def\<close>)
qed

lemma set_value_rearmed:
  assumes run: "\<And>e t. fst (run e t) \<noteq> OutOfFuel \<Longrightarrow> rearmed t (snd (run e t))"
    and fuel: "fst (set_value run a v s) \<noteq> OutOfFuel"
  shows "rearmed s (snd (set_value run a v s))"
proof (cases "lookup_cell s a")
  case None
  then show ?thesis by (simp add: set_value_def rearmed_refl)
next
  case (Some c)
  then have a: "a < length (cells s)" and c: "c = cells s ! a"
    by (simp_all add: lookup_cell_Some)
  show ?thesis
  proof (cases "c_derived c \<or> strict_eq (c_value c) v")
    case True
    then show ?thesis using Some by (auto simp: set_value_def rearmed_refl)
  next
    case False
    then have h: "\<not> c_derived c" "\<not> strict_eq (c_value c) v" by simp_all
    note u = set_value_unfold[OF Some h]
    show ?thesis
    proof (cases "UPDATE_COUNT_LIMIT < c_updateCount c")
      case True
      then show ?thesis using a c
        by (auto simp: u stored_def rearmed_def nth_list_update)
    next
      case lim: False
      obtain r s5 where r: "run_effects run (c_id c) 0 (length (c_effects c)) (c_effects c) (stored a v c s) = (r, s5)"
        by (cases "run_effects run (c_id c) 0 (length (c_effects c)) (c_effects c) (stored a v c s)")
      have f: "r \<noteq> OutOfFuel" using fuel lim r by (auto simp: u)
      have m: "rearmed (stored a v c s) s5"
        using run_effects_rearmed[of run "c_id c" 0 "length (c_effects c)" "c_effects c" "stored a v c s"]
          run r f by simp
      have z: "rearmed s t"
        if "cells t = (cells s5)[a := (cells s5 ! a)\<lparr>c_updateCount := 0\<rparr>]" for t
        using m a that unfolding rearmed_def stored_def
        by (auto simp: nth_list_update)
      show ?thesis using lim r f z by (cases r) (simp_all add: u)
    qed
  qed
qed

lemma effect_rearmed:
  assumes run: "\<And>e t. fst (run e t) \<noteq> OutOfFuel \<Longrightarrow> rearmed t (snd (run e t))"
    and fuel: "fst (effect run name fn s) \<noteq> OutOfFuel"
  shows "rearmed s (snd (effect run name fn s))"
proof (cases "currentEffect s")
  case None
  define s2 where "s2 = s\<lparr>g_id := g_id s + 1,
              effs := effs s @ [\<lparr>e_name = (if name = [] then ''anonymous'' else name),
                                e_id = ''#e'' @ string_of_nat (g_id s), e_fn = fn\<rparr>]\<rparr>"
  have e: "effect run name fn s = run (length (effs s)) s2"
    using None by (simp add: effect_def Let_def s2_def)
  have "rearmed s s2" by (rule rearmed_globals) (simp add: s2_def)
  moreover have "rearmed s2 (snd (run (length (effs s)) s2))"
    using run[of "length (effs s)" s2] fuel e by simp
  ultimately show ?thesis unfolding e by (rule rearmed_trans)
next
  case (Some e)
  then show ?thesis by (simp add: effect_def rearmed_refl)
qed

lemma derived_rearmed:
  assumes run: "\<And>e t. fst (run e t) \<noteq> OutOfFuel \<Longrightarrow> rearmed t (snd (run e t))"
    and fuel: "\<And>t. derived run fname computeFn s \<noteq> Inl (OutOfFuel, t)"
  shows "rearmed s (out_state (derived run fname computeFn s))"
proof -
  obtain x s1 where n: "new_signal VUndef True s = (x, s1)" by (cases "new_signal VUndef True s")
  have m1: "rearmed s s1" using new_signal_rearmed[of s VUndef True] n by simp
  show ?thesis
  proof (cases x)
    case (Inl err)
    then show ?thesis using n m1 by (simp add: derived_def out_state_def)
  next
    case (Inr a)
    define nm where "nm = (if fname = [] then ''derived'' else fname)"
    obtain r s2 where e: "effect run nm (Recompute a computeFn) s1 = (r, s2)"
      by (cases "effect run nm (Recompute a computeFn) s1")
    have f: "r \<noteq> OutOfFuel" using fuel[of s2] n Inr e by (auto simp: derived_def nm_def)
    have "rearmed s1 s2" using effect_rearmed[of run nm "Recompute a computeFn" s1] run e f
      by simp
    then have "rearmed s s2" by (rule rearmed_trans[OF m1])
    then show ?thesis using n Inr e
      by (cases r) (simp_all add: derived_def out_state_def nm_def)
  qed
qed

lemma exec_prog_rearmed:
  assumes run: "\<And>e t. fst (run e t) \<noteq> OutOfFuel \<Longrightarrow> rearmed t (snd (run e t))"
  shows "fst (exec_prog run p s) \<noteq> OutOfFuel \<Longrightarrow> rearmed s (snd (exec_prog run p s))"
proof (induction p arbitrary: s)
  case (Ret v)
  show ?case by (simp add: rearmed_refl)
next
  case (Throw v)
  show ?case by (simp add: rearmed_refl)
next
  case (State v k)
  obtain x s1 where n: "new_signal v False s = (x, s1)" by (cases "new_signal v False s")
  have m1: "rearmed s s1" using new_signal_rearmed[of s v False] n by simp
  show ?case
  proof (cases x)
    case (Inl err)
    then show ?thesis using n m1 by simp
  next
    case (Inr a)
    then have "fst (exec_prog run (k a) s1) \<noteq> OutOfFuel" using State.prems n by simp
    then show ?thesis using n Inr rearmed_trans[OF m1 State.IH] by simp
  qed
next
  case (Derived fname computeFn k)
  show ?case
  proof (cases "derived run fname computeFn s")
    case (Inl r)
    then have "\<And>t. derived run fname computeFn s \<noteq> Inl (OutOfFuel, t)"
      using Derived.prems by (cases r) auto
    then show ?thesis using derived_rearmed[of run fname computeFn s] run Inl
      by (cases r) (simp add: out_state_def)
  next
    case (Inr r)
    obtain a s1 where r: "r = (a, s1)" by (cases r)
    have m: "rearmed s s1" using derived_rearmed[of run fname computeFn s] run Inr r
      by (simp add: out_state_def)
    have "fst (exec_prog run (k a) s1) \<noteq> OutOfFuel" using Derived.prems Inr r by simp
    then show ?thesis using Inr r rearmed_trans[OF m Derived.IH(2)] by simp
  qed
next
  case (Effect name fn k)
  obtain r s1 where e: "effect run name (Plain fn) s = (r, s1)" by (cases "effect run name (Plain fn) s")
  have f: "r \<noteq> OutOfFuel" using Effect.prems e by (cases r) auto
  have m1: "rearmed s s1" using effect_rearmed[of run name "Plain fn" s] run e f by simp
  show ?case
  proof (cases r)
    case (Normal v)
    then have "fst (exec_prog run (k v) s1) \<noteq> OutOfFuel" using Effect.prems e by simp
    then show ?thesis using e Normal rearmed_trans[OF m1 Effect.IH(2)] by simp
  qed (use e m1 f in simp_all)
next
  case (Get a k)
  obtain r s1 where e: "get_value a s = (r, s1)" by (cases "get_value a s")
  have m1: "rearmed s s1" using get_value_rearmed[of s a] e by simp
  show ?case
  proof (cases r)
    case (Normal v)
    then have "fst (exec_prog run (k v) s1) \<noteq> OutOfFuel" using Get.prems e by simp
    then show ?thesis using e Normal rearmed_trans[OF m1 Get.IH] by simp
  qed (use e m1 in simp_all)
next
  case (Set a v p)
  obtain r s1 where e: "set_value run a v s = (r, s1)" by (cases "set_value run a v s")
  have f: "r \<noteq> OutOfFuel" using Set.prems e by (cases r) auto
  have m1: "rearmed s s1" using set_value_rearmed[of run a v s] run e f by simp
  show ?case
  proof (cases r)
    case (Normal x)
    then have "fst (exec_prog run p s1) \<noteq> OutOfFuel" using Set.prems e by simp
    then show ?thesis using e Normal rearmed_trans[OF m1 Set.IH] by simp
  qed (use e m1 f in simp_all)
next
  case (Meta a k)
  show ?case using Meta.IH Meta.prems by (simp add: rearmed_refl split: option.splits)
next
  case (CurrentEffect k)
  show ?case using CurrentEffect.IH CurrentEffect.prems by simp
next
  case (DebugContext enable reset p)
  have "rearmed s (signalDebugContext enable reset s)"
    by (rule rearmed_globals) (simp add: signalDebugContext_def Let_def)
  then show ?case using rearmed_trans[OF _ DebugContext.IH] DebugContext.prems by simp
next
  case (Push v p)
  have "rearmed s (s\<lparr>log := log s @ [v]\<rparr>)" by (rule rearmed_globals) simp
  then show ?case using rearmed_trans[OF _ Push.IH] Push.prems by simp
next
  case (Try p h k)
  obtain r s1 where e: "exec_prog run p s = (r, s1)" by (cases "exec_prog run p s")
  have f: "r \<noteq> OutOfFuel" using Try.prems e by (cases r) auto
  have m1: "rearmed s s1" using Try.IH(1)[of s] e f by simp
  show ?case
  proof (cases r)
    case (Normal v)
    then have "fst (exec_prog run (k v) s1) \<noteq> OutOfFuel" using Try.prems e by simp
    then show ?thesis using e Normal rearmed_trans[OF m1 Try.IH(3)] by simp
  next
    case (Thrown x)
    obtain r2 s2 where e2: "exec_prog run (h x) s1 = (r2, s2)" by (cases "exec_prog run (h x) s1")
    have f2: "r2 \<noteq> OutOfFuel" using Try.prems e Thrown e2 by (cases r2) auto
    have "rearmed s1 s2" using Try.IH(2)[of "h x" s1] e2 f2 by simp
    then have m2: "rearmed s s2" by (rule rearmed_trans[OF m1])
    show ?thesis
    proof (cases r2)
      case (Normal v)
      then have "fst (exec_prog run (k v) s2) \<noteq> OutOfFuel" using Try.prems e Thrown e2 by simp
      then show ?thesis using e Thrown e2 Normal rearmed_trans[OF m2 Try.IH(3)] by simp
    qed (use e Thrown e2 m2 f2 in simp_all)
  next
    case OutOfFuel
    then show ?thesis using f by simp
  qed
qed

lemma exec_body_rearmed:
  assumes run: "\<And>e t. fst (run e t) \<noteq> OutOfFuel \<Longrightarrow> rearmed t (snd (run e t))"
    and fuel: "fst (exec_body run b s) \<noteq> OutOfFuel"
  shows "rearmed s (snd (exec_body run b s))"
proof (cases b)
  case (Plain p)
  then show ?thesis using exec_prog_rearmed[of run p s] run fuel by (simp add: exec_body_def)
next
  case (Recompute a computeFn)
  obtain r s1 where e: "exec_prog run computeFn s = (r, s1)" by (cases "exec_prog run computeFn s")
  have f: "r \<noteq> OutOfFuel" using fuel Recompute e by (cases r) (auto simp: exec_body_def)
  have m1: "rearmed s s1" using exec_prog_rearmed[of run computeFn s] run e f by simp
  have k: "c_updateCount ((cells s1)[a := (cells s1 ! a)\<lparr>c_value := v\<rparr>] ! b) =
             c_updateCount (cells s1 ! b)" if "b < length (cells s1)" for b v
    using that by (cases "b = a") simp_all
  have "rearmed s1 (debug_signal i (SetDerived v) (upd_cell a (\<lambda>c. c\<lparr>c_value := v\<rparr>) s1))" for i v
    by (auto simp: rearmed_def k)
  then have "rearmed s (debug_signal i (SetDerived v) (upd_cell a (\<lambda>c. c\<lparr>c_value := v\<rparr>) s1))" for i v
    by (rule rearmed_trans[OF m1])
  then show ?thesis using Recompute e m1
    by (cases r) (simp_all add: exec_body_def Let_def)
qed

lemma effectFn_rearmed:
  assumes run: "\<And>e t. fst (run e t) \<noteq> OutOfFuel \<Longrightarrow> rearmed t (snd (run e t))"
    and fuel: "fst (effectFn run e s) \<noteq> OutOfFuel"
  shows "rearmed s (snd (effectFn run e s))"
proof (cases "lookup_eff s e")
  case None
  then show ?thesis by (simp add: effectFn_def rearmed_refl)
next
  case (Some f)
  define s3 where "s3 = (debug_effect f StartEffect s)
     \<lparr>g_depth := g_depth (debug_effect f StartEffect s) + 1, currentEffect := Some e\<rparr>"
  have m3: "rearmed s s3" by (rule rearmed_globals) (simp add: s3_def)
  obtain r s4 where b: "exec_body run (e_fn f) s3 = (r, s4)" by (cases "exec_body run (e_fn f) s3")
  have f: "r \<noteq> OutOfFuel" using fuel Some b by (cases r) (auto simp: effectFn_def Let_def s3_def)
  have "rearmed s3 s4" using exec_body_rearmed[of run "e_fn f" s3] run b f by simp
  then have m4: "rearmed s s4" by (rule rearmed_trans[OF m3])
  have m5: "rearmed s (s4\<lparr>currentEffect := c\<rparr>)" for c
    by (rule rearmed_trans[OF m4]) (rule rearmed_globals, simp)
  have m6: "rearmed s (debug_effect f EndEffect (s4\<lparr>currentEffect := c, g_depth := d\<rparr>))" for c d
    by (rule rearmed_trans[OF m4]) (rule rearmed_globals, simp)
  show ?thesis using Some b m4 m5 m6
    by (cases r) (simp_all add: effectFn_def Let_def s3_def)
qed

lemma invoke_rearmed:
  "fst (invoke n e s) \<noteq> OutOfFuel \<Longrightarrow> rearmed s (snd (invoke n e s))"
proof (induction n arbitrary: e s)
  case 0
  then show ?case by simp
next
  case (Suc n)
  show ?case using effectFn_rearmed[of "invoke n" e s] Suc.IH Suc.prems by simp
qed

lemma exec_rearmed:
  "fst (exec n p s) \<noteq> OutOfFuel \<Longrightarrow> rearmed s (snd (exec n p s))"
  using exec_prog_rearmed[of "invoke n" p s] invoke_rearmed by (simp add: exec_def)

lemma top_level_counters_zero:
  assumes "fst (exec n p init) \<noteq> OutOfFuel" and "c \<in> set (cells (snd (exec n p init)))"
  shows "c_updateCount c = 0"
  using exec_rearmed[OF assms(1)] assms(2)
  by (auto simp: rearmed_def init_def in_set_conv_nth)

section \<open>A write seen through its subscribers\<close>





lemma stored_log [simp]: "log (stored a v c s) = log s"
  by (simp add: stored_def)





section \<open>What a write keeps\<close>

lemma kept_refl: "kept s s"
  by (simp add: kept_def)



























section \<open>The claims\<close>

subsection \<open>C1: a tripped update guard\<close>

text \<open>
  C1 says that once a write to a cell has failed with the circular-update error, the
  cell's update count stays above the limit and every later write of a differing value to
  that cell fails the same way. The run below refutes it: the cascade of
  \<open>counter_script 2000\<close> fails with the circular-update error, the update count of the
  cell is 0 afterwards, and the next write of a differing value returns normally.
\<close>

theorem runaway_trip_is_not_absorbing:
  "exec 1001 (counter_script 2000) init =
     (Thrown (CircularUpdate ''#s0'' 1), counter_state 2000 0 1002 1002 2003 None)
   \<and> is_runaway_update (CircularUpdate ''#s0'' 1)
   \<and> c_updateCount (cells (counter_state 2000 0 1002 1002 2003 None) ! 0) = 0
   \<and> \<not> strict_eq (c_value (cells (counter_state 2000 0 1002 1002 2003 None) ! 0)) (VNum 0)
   \<and> set_value (invoke 1) 0 (VNum 0) (counter_state 2000 0 1002 1002 2003 None) =
       (Normal VUndef, counter_state 2000 0 0 1003 2003 None)"
proof -
  have a: "exec 1001 (counter_script 2000) init =
     (Thrown (CircularUpdate ''#s0'' 1), counter_state 2000 0 1002 1002 2003 None)"
    by (rule counter_script_trip) simp_all
  have b: "set_value (invoke (Suc 0)) 0 (VNum 0) (counter_state 2000 0 1002 1002 2003 None) =
       (Normal VUndef, counter_state 2000 0 0 (Suc 1002) 2003 None)"
    by (rule counter_idle_write) simp_all
  show ?thesis using a b by (simp add: counter_cell)
qed

text \<open>
  C1, amended: a write that fails the guard leaves the update count one above the
  value it found, so above the limit, at the moment it throws; a write that passes the
  guard leaves the update count at 0 when it exits, by return or by a throw of one of its
  subscribers (the \<^verbatim>\<open>finally\<close> block). A failure inside nested writes therefore resets
  the count as it unwinds through the enclosing writes of the same cell: whenever a
  program run from the initial state ends, by return or by a throw, every cell has update
  count 0.
\<close>

theorem tripped_counter_is_reset_on_unwind:
  assumes "lookup_cell s a = Some c" and "\<not> c_derived c" and "\<not> strict_eq (c_value c) v"
  shows "(UPDATE_COUNT_LIMIT < c_updateCount c \<longrightarrow>
            fst (set_value run a v s) = Thrown (CircularUpdate (c_id c) (length (c_effects c)))
          \<and> c_updateCount (cells (snd (set_value run a v s)) ! a) = c_updateCount c + 1)
       \<and> (c_updateCount c \<le> UPDATE_COUNT_LIMIT \<longrightarrow> fst (set_value (invoke n) a v s) \<noteq> OutOfFuel \<longrightarrow>
            c_updateCount (cells (snd (set_value (invoke n) a v s)) ! a) = 0)
       \<and> (fst (exec m p init) \<noteq> OutOfFuel \<longrightarrow>
            (\<forall>d \<in> set (cells (snd (exec m p init))). c_updateCount d = 0))"
proof (intro conjI impI ballI)
  fix d assume "fst (exec m p init) \<noteq> OutOfFuel" and "d \<in> set (cells (snd (exec m p init)))"
  then show "c_updateCount d = 0" by (rule top_level_counters_zero)
next
  assume lim: "UPDATE_COUNT_LIMIT < c_updateCount c"
  show "fst (set_value run a v s) = Thrown (CircularUpdate (c_id c) (length (c_effects c)))"
    using lim by (simp add: set_value_unfold[OF assms])
  show "c_updateCount (cells (snd (set_value run a v s)) ! a) = c_updateCount c + 1"
    using lim stored_cell[OF assms(1), of v] by (simp add: set_value_unfold[OF assms])
next
  assume lim: "c_updateCount c \<le> UPDATE_COUNT_LIMIT"
    and fuel: "fst (set_value (invoke n) a v s) \<noteq> OutOfFuel"
  obtain r s5 where r: "run_effects (invoke n) (c_id c) 0 (length (c_effects c)) (c_effects c) (stored a v c s) = (r, s5)"
    by (cases "run_effects (invoke n) (c_id c) 0 (length (c_effects c)) (c_effects c) (stored a v c s)")
  have "mut (stored a v c s) s5"
    using run_effects_mut[of "invoke n" "stored a v c s" "c_id c" 0 "length (c_effects c)" "c_effects c",
        OF invoke_mut] r by simp
  then have a5: "a < length (cells s5)"
    using mut_length[of "stored a v c s" s5] stored_cell(1)[OF assms(1), of v] by simp
  show "c_updateCount (cells (snd (set_value (invoke n) a v s)) ! a) = 0"
    using lim fuel r a5 by (cases r) (simp_all add: set_value_unfold[OF assms])
qed

theorem tripped_counter_is_reset_on_unwind_witness:
  "fst (set_value (invoke 1) 0 (VNum 6) (counter_state 2000 1001 5 5 0 (Some 0))) =
     Thrown (CircularUpdate ''#s0'' 1)
   \<and> c_updateCount (cells (snd (set_value (invoke 1) 0 (VNum 6) (counter_state 2000 1001 5 5 0 (Some 0)))) ! 0) = 1002
   \<and> fst (set_value (invoke 1) 0 (VNum 0) (counter_state 2000 1000 1002 1002 2003 None)) = Normal VUndef
   \<and> c_updateCount (cells (snd (set_value (invoke 1) 0 (VNum 0) (counter_state 2000 1000 1002 1002 2003 None))) ! 0) = 0
   \<and> fst (exec 1001 (counter_script 2000) init) = Thrown (CircularUpdate ''#s0'' 1)
   \<and> map c_updateCount (cells (snd (exec 1001 (counter_script 2000) init))) = [0]"
proof -
  have a: "exec 1001 (counter_script 2000) init =
     (Thrown (CircularUpdate ''#s0'' 1), counter_state 2000 0 1002 1002 2003 None)"
    by (rule counter_script_trip) simp_all
  have c: "map c_updateCount (cells (counter_state 2000 0 1002 1002 2003 None)) = [0]"
    by (simp add: counter_state_def)
  have b: "set_value (invoke (Suc 0)) 0 (VNum 0) (counter_state 2000 1000 1002 1002 2003 None) =
       (Normal VUndef, counter_state 2000 0 0 (Suc 1002) 2003 None)"
    by (rule counter_idle_write) simp_all
  show ?thesis
    using tripped_counter_is_reset_on_unwind[of "counter_state 2000 1001 5 5 0 (Some 0)" 0
        "cells (counter_state 2000 1001 5 5 0 (Some 0)) ! 0" "VNum 6" "invoke 1" 1 1001
        "counter_script 2000"]
      tripped_counter_is_reset_on_unwind[of "counter_state 2000 1000 1002 1002 2003 None" 0
        "cells (counter_state 2000 1000 1002 1002 2003 None) ! 0" "VNum 0" "invoke 1" 1 1001
        "counter_script 2000"]
      a b c
    by (simp add: counter_cell UPDATE_COUNT_LIMIT_def)
qed

subsection \<open>C2: the threshold of the update guard\<close>




subsection \<open>C3: a write replays the subscribers in subscription order\<close>




subsection \<open>C4: writing the stored value is a no-op\<close>

text \<open>
  C4: a write of a value strictly equal to the stored one leaves the whole state as it
  was (value, version, subscribers, update count and everything else), whatever the
  subscribers would do, and for a mutable cell it returns normally.
\<close>

theorem set_value_equal_noop:
  assumes "lookup_cell s a = Some c" and "strict_eq (c_value c) v"
  shows "snd (set_value run a v s) = s
         \<and> set_value run a v s = set_value run' a v s
         \<and> (\<not> c_derived c \<longrightarrow> set_value run a v s = (Normal VUndef, s))"
  using assms by (simp add: set_value_def)

theorem set_value_equal_noop_witness:
  "lookup_cell (counter_state 5 0 3 3 0 None) 0 = Some (cells (counter_state 5 0 3 3 0 None) ! 0)
   \<and> strict_eq (c_value (cells (counter_state 5 0 3 3 0 None) ! 0)) (VNum 3)
   \<and> set_value (invoke 1) 0 (VNum 3) (counter_state 5 0 3 3 0 None)
       = (Normal VUndef, counter_state 5 0 3 3 0 None)"
  using set_value_equal_noop[of "counter_state 5 0 3 3 0 None" 0
      "cells (counter_state 5 0 3 3 0 None) ! 0" "VNum 3" "invoke 1" "invoke 1"]
  by (simp add: lookup_cell_def counter_state_def)

subsection \<open>C5: subscribers are never duplicated and never removed\<close>



subsection \<open>C6: the wrapper and the depth counter\<close>

text \<open>
  C6 says that every call of an effect wrapper restores the tracking slot and the
  depth counter on every exit path. The slot is restored (\<open>effectFn_restores_slot\<close>), but
  the decrement of the depth counter follows the \<^verbatim>\<open>try\<close> statement and is skipped by a
  throw: an effect whose body throws on its first run leaves the counter at 1, and one
  that throws when a write replays it leaves it at 2 (the setter skips its decrement
  too).
\<close>

theorem throwing_effect_leaves_depth_raised:
  "fst (exec 1 throwing_effect init) = Thrown (UserError (VStr ''boom''))
   \<and> currentEffect (snd (exec 1 throwing_effect init)) = currentEffect init
   \<and> g_depth init = 0
   \<and> g_depth (snd (exec 1 throwing_effect init)) = 1
   \<and> fst (exec 1 throwing_replay init) = Thrown (UserError (VStr ''boom''))
   \<and> currentEffect (snd (exec 1 throwing_replay init)) = None
   \<and> g_depth (snd (exec 1 throwing_replay init)) = 2"
  by code_simp

subsection \<open>C7: a derived cell cannot be written\<close>

text \<open>
  C7: a write to a derived cell throws for every value, also the stored one, and leaves
  the state unchanged.
\<close>

theorem derived_set_always_fails:
  assumes "lookup_cell s a = Some c" and "c_derived c"
  shows "set_value run a v s = (Thrown CannotMutateDerived, s)
         \<and> exec_prog run (Set a v p) s = (Thrown CannotMutateDerived, s)
         \<and> is_structural_violation CannotMutateDerived"
  using assms by (simp add: set_value_def)

theorem derived_set_always_fails_witness:
  "lookup_cell const_derived_state 0 = Some (cells const_derived_state ! 0)
   \<and> c_derived (cells const_derived_state ! 0)
   \<and> strict_eq (c_value (cells const_derived_state ! 0)) (VNum 7)
   \<and> set_value (invoke 1) 0 (VNum 7) const_derived_state = (Thrown CannotMutateDerived, const_derived_state)
   \<and> set_value (invoke 1) 0 (VNum 8) const_derived_state = (Thrown CannotMutateDerived, const_derived_state)"
  using derived_set_always_fails[of const_derived_state 0 "cells const_derived_state ! 0" "invoke 1" "VNum 7" "Ret VUndef"]
    derived_set_always_fails[of const_derived_state 0 "cells const_derived_state ! 0" "invoke 1" "VNum 8" "Ret VUndef"]
  by (simp add: lookup_cell_def const_derived_run)

subsection \<open>C8: no construction while an effect runs\<close>

text \<open>
  C8: while the tracking slot holds an effect, creating a mutable cell, creating a
  derived cell and starting an effect all throw a structural-violation error.
\<close>

theorem construction_inside_effect_fails:
  assumes "currentEffect s = Some e"
  shows "fst (new_signal v False s) = Inl CreatingSignalInsideEffect
         \<and> fst (exec_prog run (State v k) s) = Thrown CreatingSignalInsideEffect
         \<and> (\<exists>s'. derived run fname computeFn s = Inl (Thrown CreatingSignalInsideEffect, s'))
         \<and> fst (exec_prog run (Derived fname computeFn k') s) = Thrown CreatingSignalInsideEffect
         \<and> effect run name fn s = (Thrown NestedEffectsNotSupported, s)
         \<and> exec_prog run (Effect name body k'') s = (Thrown NestedEffectsNotSupported, s)
         \<and> is_structural_violation CreatingSignalInsideEffect
         \<and> is_structural_violation NestedEffectsNotSupported"
  using assms by (simp add: new_signal_def derived_def effect_def Let_def)

theorem construction_inside_effect_fails_witness:
  "currentEffect (counter_state 5 0 3 3 1 (Some 0)) = Some 0
   \<and> fst (exec_prog (invoke 1) (State (VNum 123) (\<lambda>_. Ret VUndef)) (counter_state 5 0 3 3 1 (Some 0)))
       = Thrown CreatingSignalInsideEffect
   \<and> fst (exec_prog (invoke 1) (Derived [] (Ret (VNum 123)) (\<lambda>_. Ret VUndef)) (counter_state 5 0 3 3 1 (Some 0)))
       = Thrown CreatingSignalInsideEffect
   \<and> fst (exec_prog (invoke 1) (Effect [] (Ret VUndef) Ret) (counter_state 5 0 3 3 1 (Some 0)))
       = Thrown NestedEffectsNotSupported"
  using construction_inside_effect_fails[of "counter_state 5 0 3 3 1 (Some 0)" 0 "VNum 123"
      "invoke 1" "\<lambda>_. Ret VUndef" "[]" "Ret (VNum 123)" "\<lambda>_. Ret VUndef" "[]" "Plain (Ret VUndef)"
      "Ret VUndef" Ret]
  by (simp add: counter_state_def)

subsection \<open>C9: a failed write is not rolled back\<close>




subsection \<open>C10: the version of a derived cell stays 0\<close>

text \<open>
  C10: in every state reached from the initial one, every derived cell has version 0,
  also as reported by \<^verbatim>\<open>meta\<close>; the recompute closure, once its compute function has
  returned, changes only the stored value of its cell and calls no subscriber; and the
  setter of a derived cell throws without changing the state.
\<close>

theorem derived_version_stays_zero:
  "derived_unversioned (snd (exec n p init))
   \<and> (\<forall>c \<in> set (cells (snd (exec n p init))).
         c_derived c \<longrightarrow> m_version (meta (snd (exec n p init)) c) = 0)
   \<and> (derived_unversioned s \<longrightarrow> derived_unversioned (snd (exec n p s)))
   \<and> (exec_prog run computeFn s = (Normal v, t) \<longrightarrow>
         fst (exec_body run (Recompute a computeFn) s) = Normal VUndef
       \<and> cells (snd (exec_body run (Recompute a computeFn) s)) = (cells t)[a := (cells t ! a)\<lparr>c_value := v\<rparr>]
       \<and> effs (snd (exec_body run (Recompute a computeFn) s)) = effs t
       \<and> log (snd (exec_body run (Recompute a computeFn) s)) = log t
       \<and> currentEffect (snd (exec_body run (Recompute a computeFn) s)) = currentEffect t
       \<and> g_depth (snd (exec_body run (Recompute a computeFn) s)) = g_depth t
       \<and> g_id (snd (exec_body run (Recompute a computeFn) s)) = g_id t)
   \<and> (lookup_cell s a = Some c \<and> c_derived c \<longrightarrow>
         set_value run a w s = (Thrown CannotMutateDerived, s))"
proof -
  have i: "derived_unversioned init" by (simp add: derived_unversioned_def init_def)
  have d: "derived_unversioned (snd (exec n p init))"
    by (rule mut_derived_unversioned[OF exec_mut i])
  have m: "\<forall>c \<in> set (cells (snd (exec n p init))).
         c_derived c \<longrightarrow> m_version (meta (snd (exec n p init)) c) = 0"
    using d by (simp add: derived_unversioned_def meta_def)
  have s: "derived_unversioned s \<longrightarrow> derived_unversioned (snd (exec n p s))"
    using mut_derived_unversioned[OF exec_mut] by blast
  show ?thesis using d m s
    by (simp add: exec_body_def Let_def set_value_def)
qed

theorem derived_version_stays_zero_witness:
  "c_derived (cells (snd (exec 1 scenarioB init)) ! 2)
   \<and> c_value (cells (snd (exec 1 scenarioB init)) ! 2) = VNum 3
   \<and> c_version (cells (snd (exec 1 scenarioB init)) ! 2) = 0
   \<and> derived_unversioned const_derived_state
   \<and> derived_unversioned (snd (exec 1 scenarioB const_derived_state))
   \<and> cells (snd (exec_body (invoke 1) (Recompute 0 (Ret (VNum 9))) const_derived_state)) =
       [\<lparr>c_id = ''#d0'', c_value = VNum 9, c_effects = [], c_version = 0,
         c_updateCount = 0, c_derived = True\<rparr>]
   \<and> set_value (invoke 1) 0 (VNum 9) const_derived_state =
       (Thrown CannotMutateDerived, const_derived_state)"
proof -
  have l: "length (cells (snd (exec 1 scenarioB init))) = 3"
    using arg_cong[OF scenarioB_run(3), of length] by simp
  have "cells (snd (exec 1 scenarioB init)) ! 2 \<in> set (cells (snd (exec 1 scenarioB init)))"
    using l by simp
  moreover have "c_derived (cells (snd (exec 1 scenarioB init)) ! 2)"
    using arg_cong[OF scenarioB_run(3), of "\<lambda>xs. xs ! 2"] l by simp
  moreover have "c_value (cells (snd (exec 1 scenarioB init)) ! 2) = VNum 3"
    using arg_cong[OF scenarioB_run(6), of "\<lambda>xs. xs ! 2"] l by simp
  moreover have "derived_unversioned const_derived_state"
    by (simp add: derived_unversioned_def const_derived_run(4))
  moreover have "lookup_cell const_derived_state 0 = Some (cells const_derived_state ! 0)"
    by (simp add: lookup_cell_def const_derived_run(2))
  ultimately show ?thesis
    using derived_version_stays_zero[where n = 1 and p = scenarioB and s = const_derived_state
        and run = "invoke 1" and computeFn = "Ret (VNum 9)" and v = "VNum 9"
        and t = const_derived_state and a = 0 and c = "cells const_derived_state ! 0"
        and w = "VNum 9"]
      const_derived_run(3,4)
    by (simp add: derived_unversioned_def)
qed

end
